theory Spec2Isabelle
  imports Main "HOL-Library.AList"
begin

section \<open>Python strings\<close>

text \<open>
  A string is a list of 8-bit code points. The four string operations of \<^verbatim>\<open>conf.py\<close>
  are \<^verbatim>\<open>str.startswith\<close>, \<^verbatim>\<open>str.replace\<close>, \<^verbatim>\<open>str.lower\<close> and the substring test
  \<^verbatim>\<open>sub in s\<close>.
\<close>

definition startswith :: "string \<Rightarrow> string \<Rightarrow> bool" where
  "startswith s p = (take (length p) s = p)"

text \<open>
  \<^verbatim>\<open>s.replace(old, new)\<close>: the occurrences of \<^verbatim>\<open>old\<close> are found from the left and do
  not overlap; every one of them is replaced. An empty \<^verbatim>\<open>old\<close> matches before every
  character and at the end.
\<close>

function replace :: "string \<Rightarrow> string \<Rightarrow> string \<Rightarrow> string" where
  "replace [] old new = (if old = [] then new else [])"
| "replace (c # cs) old new =
     (if old = [] then new @ c # replace cs old new
      else if startswith (c # cs) old then new @ replace (drop (length old) (c # cs)) old new
      else c # replace cs old new)"
  by pat_completeness auto
termination
  by (relation "measure (\<lambda>(s, old, new). length s)") auto

text \<open>
  \<^verbatim>\<open>str.lower\<close> on code points below 256: the letters A to Z and the Latin-1 capitals
  (192 to 222 without the multiplication sign 215) move up by 32.
\<close>

definition lower_char :: "char \<Rightarrow> char" where
  "lower_char c =
     (let n = (of_char c :: nat)
      in if (65 \<le> n \<and> n \<le> 90) \<or> (192 \<le> n \<and> n \<le> 222 \<and> n \<noteq> 215)
         then char_of (n + 32) else c)"

definition lower :: "string \<Rightarrow> string" where
  "lower s = map lower_char s"

fun str_contains :: "string \<Rightarrow> string \<Rightarrow> bool" where
  "str_contains [] sub = (sub = [])"
| "str_contains (c # cs) sub = (startswith (c # cs) sub \<or> str_contains cs sub)"

section \<open>Python values, exceptions and type hints\<close>

datatype pyval =
    PNone
  | PBool bool
  | PInt int
  | PStr string
  | PTuple "pyval list"

datatype pyexc = ValueError | TypeError | AttributeError | KeyError

text \<open>
  The annotations that occur in the repository: \<^verbatim>\<open>int\<close>, \<^verbatim>\<open>bool\<close>, \<^verbatim>\<open>str\<close>, and the
  subscripted aliases of \<^verbatim>\<open>typing\<close> (\<^verbatim>\<open>List[int]\<close>, \<^verbatim>\<open>Tuple[str]\<close>), which cannot be
  instantiated: calling one raises \<^verbatim>\<open>TypeError\<close>.
\<close>

datatype hint = TInt | TBool | TStr | TAlias

subsection \<open>\<^verbatim>\<open>int(s)\<close> on a string\<close>

text \<open>
  \<^verbatim>\<open>int\<close> strips white space on both sides, reads an optional sign and then decimal
  digits, where single underscores may stand between two digits. Anything else raises
  \<^verbatim>\<open>ValueError\<close>. (The interpreter's limit on the number of digits is not modelled.)
\<close>

definition is_space :: "char \<Rightarrow> bool" where
  "is_space c = (of_char c \<in> {9, 10, 11, 12, 13, 32, 133, 160 :: nat})"

definition is_digit :: "char \<Rightarrow> bool" where
  "is_digit c = (48 \<le> (of_char c :: nat) \<and> (of_char c :: nat) \<le> 57)"

definition digit_val :: "char \<Rightarrow> nat" where
  "digit_val c = of_char c - 48"

definition strip :: "string \<Rightarrow> string" where
  "strip s = rev (dropWhile is_space (rev (dropWhile is_space s)))"

fun parse_digits :: "nat \<Rightarrow> string \<Rightarrow> nat option" where
  "parse_digits acc [] = Some acc"
| "parse_digits acc [c] = (if is_digit c then Some (acc * 10 + digit_val c) else None)"
| "parse_digits acc (c # d # ds) =
     (if is_digit c then parse_digits (acc * 10 + digit_val c) (d # ds)
      else if c = CHR ''_'' \<and> is_digit d then parse_digits (acc * 10 + digit_val d) ds
      else None)"

definition parse_unsigned :: "string \<Rightarrow> nat option" where
  "parse_unsigned s =
     (case s of
        [] \<Rightarrow> None
      | d # ds \<Rightarrow> if is_digit d then parse_digits (digit_val d) ds else None)"

definition py_int :: "string \<Rightarrow> pyexc + pyval" where
  "py_int s =
     (case strip s of
        [] \<Rightarrow> Inl ValueError
      | c # cs \<Rightarrow>
          (if c = CHR ''-'' then
             (case parse_unsigned cs of
                None \<Rightarrow> Inl ValueError
              | Some n \<Rightarrow> Inr (PInt (- int n)))
           else
             (case parse_unsigned (if c = CHR ''+'' then cs else c # cs) of
                None \<Rightarrow> Inl ValueError
              | Some n \<Rightarrow> Inr (PInt (int n)))))"

subsection \<open>Calling the type hint\<close>

text \<open>
  \<^verbatim>\<open>type_hints.get(attr)(v)\<close>, where \<^verbatim>\<open>v\<close> is what \<^verbatim>\<open>os.getenv\<close> returned: a string, or
  \<^verbatim>\<open>None\<close> for a key that is not set. A name without a hint gives \<^verbatim>\<open>None(v)\<close>, a
  \<^verbatim>\<open>TypeError\<close>.
\<close>

definition call_hint :: "hint option \<Rightarrow> string option \<Rightarrow> pyexc + pyval" where
  "call_hint h v =
     (case h of
        None \<Rightarrow> Inl TypeError
      | Some TInt \<Rightarrow> (case v of None \<Rightarrow> Inl TypeError | Some s \<Rightarrow> py_int s)
      | Some TBool \<Rightarrow> Inr (PBool (case v of None \<Rightarrow> False | Some s \<Rightarrow> s \<noteq> []))
      | Some TStr \<Rightarrow> Inr (PStr (case v of None \<Rightarrow> ''None'' | Some s \<Rightarrow> s))
      | Some TAlias \<Rightarrow> Inl TypeError)"

definition raw_value :: "string option \<Rightarrow> pyval" where
  "raw_value v = (case v of None \<Rightarrow> PNone | Some s \<Rightarrow> PStr s)"

text \<open>
  Lines 75 to 79: the call of the hint inside \<^verbatim>\<open>try\<close>, with
  \<^verbatim>\<open>except (AttributeError, KeyError, TypeError): pass\<close>. A caught exception leaves
  \<^verbatim>\<open>v\<close> as it was; any other exception leaves the function.
\<close>

definition typecast :: "(string \<times> hint) list \<Rightarrow> string \<Rightarrow> string option \<Rightarrow> pyexc + pyval" where
  "typecast hints attr v =
     (case call_hint (map_of hints attr) v of
        Inr v' \<Rightarrow> Inr v'
      | Inl e \<Rightarrow>
          if e = AttributeError \<or> e = KeyError \<or> e = TypeError then Inr (raw_value v)
          else Inl e)"

section \<open>The settings class\<close>

text \<open>
  A class is its own namespace \<^verbatim>\<open>vars(settings_class)\<close> in definition order, the
  attributes it inherits (found by \<^verbatim>\<open>getattr\<close> when the class itself has none of that
  name), and the result of \<^verbatim>\<open>get_type_hints\<close>. \<^verbatim>\<open>setattr\<close> writes into the class's own
  namespace: an existing name keeps its place, a new one goes to the end. Names that the
  metaclass treats specially (\<^verbatim>\<open>__dict__\<close>, \<^verbatim>\<open>__class__\<close>, \<^verbatim>\<open>__annotations__\<close> and the
  like) are stored like any other name.
\<close>

record settings_class =
  own :: "(string \<times> pyval) list"
  inherited :: "(string \<times> pyval) list"
  type_hints :: "(string \<times> hint) list"

definition getattr :: "settings_class \<Rightarrow> string \<Rightarrow> pyval option" where
  "getattr c name =
     (case map_of (own c) name of
        Some v \<Rightarrow> Some v
      | None \<Rightarrow> map_of (inherited c) name)"

definition getattr_default :: "settings_class \<Rightarrow> string \<Rightarrow> pyval \<Rightarrow> pyval" where
  "getattr_default c name d = (case getattr c name of Some v \<Rightarrow> v | None \<Rightarrow> d)"

definition setattr :: "settings_class \<Rightarrow> string \<Rightarrow> pyval \<Rightarrow> settings_class" where
  "setattr c name v = c\<lparr>own := AList.update name v (own c)\<rparr>"

text \<open>
  \<^verbatim>\<open>attr in container\<close>: membership in a tuple, the substring test on a string, and a
  \<^verbatim>\<open>TypeError\<close> on a value that is not iterable.
\<close>

fun py_in :: "string \<Rightarrow> pyval \<Rightarrow> pyexc + bool" where
  "py_in attr (PTuple xs) = Inr (PStr attr \<in> set xs)"
| "py_in attr (PStr s) = Inr (str_contains s attr)"
| "py_in attr PNone = Inl TypeError"
| "py_in attr (PBool b) = Inl TypeError"
| "py_in attr (PInt i) = Inl TypeError"

section \<open>\<^verbatim>\<open>get_missing_settings\<close>\<close>

fun missing_loop :: "settings_class \<Rightarrow> string list \<Rightarrow> string list \<Rightarrow> pyexc + string list" where
  "missing_loop c [] missing_settings = Inr missing_settings"
| "missing_loop c (attr # rest) missing_settings =
     (if startswith attr ''_'' then missing_loop c rest missing_settings
      else
        (case py_in attr (getattr_default c ''_optional_settings'' (PTuple [])) of
           Inl e \<Rightarrow> Inl e
         | Inr listed \<Rightarrow>
             if listed then missing_loop c rest missing_settings
             else
               (case getattr c attr of
                  None \<Rightarrow> Inl AttributeError
                | Some v \<Rightarrow>
                    if v = PNone then missing_loop c rest (missing_settings @ [attr])
                    else missing_loop c rest missing_settings)))"

definition get_missing_settings :: "settings_class \<Rightarrow> pyexc + string list" where
  "get_missing_settings c = missing_loop c (map fst (own c)) []"

section \<open>\<^verbatim>\<open>update_from_env\<close>\<close>

type_synonym environ = "(string \<times> string) list"

definition getenv :: "environ \<Rightarrow> string \<Rightarrow> string option" where
  "getenv env k = map_of env k"

text \<open>
  The trace: one record for each call of \<^verbatim>\<open>logger.debug\<close>. \<^verbatim>\<open>Skipping k\<close> is the
  message of line 71. \<^verbatim>\<open>Found k attr d\<close> is the message of lines 82 to 86 with its three
  format arguments, where \<^verbatim>\<open>Masked x\<close> stands for \<^verbatim>\<open>"****{}".format(x)\<close> and \<^verbatim>\<open>Plain v\<close>
  for the value itself.
\<close>

datatype shown = Masked pyval | Plain pyval

datatype log_record = Skipping string | Found string string shown

text \<open>\<^verbatim>\<open>v[:4]\<close>: strings and tuples can be sliced, other values raise \<^verbatim>\<open>TypeError\<close>.\<close>

fun slice4 :: "pyval \<Rightarrow> pyexc + pyval" where
  "slice4 (PStr s) = Inr (PStr (take 4 s))"
| "slice4 (PTuple xs) = Inr (PTuple (take 4 xs))"
| "slice4 PNone = Inl TypeError"
| "slice4 (PBool b) = Inl TypeError"
| "slice4 (PInt i) = Inl TypeError"

definition displayed :: "string \<Rightarrow> pyval \<Rightarrow> pyexc + shown" where
  "displayed attr v =
     (if str_contains attr ''password''
      then (case slice4 v of Inl e \<Rightarrow> Inl e | Inr p \<Rightarrow> Inr (Masked p))
      else Inr (Plain v))"

text \<open>The name a key stands for (line 68).\<close>

definition field_name :: "string \<Rightarrow> string \<Rightarrow> string" where
  "field_name prefix k = lower (replace k prefix [])"

text \<open>
  One pass of the loop body (lines 65 to 87) for the key \<^verbatim>\<open>k\<close>: the class after it and
  the records it logged, or the exception that leaves it. An exception is raised before
  the pass has logged or assigned anything.
\<close>

definition bind_one ::
  "(string \<times> hint) list \<Rightarrow> string \<Rightarrow> environ \<Rightarrow> string \<Rightarrow> settings_class
     \<Rightarrow> pyexc + settings_class \<times> log_record list" where
  "bind_one hints prefix env k c =
     (if \<not> startswith k prefix then Inr (c, [])
      else
        (let attr = field_name prefix k in
         case py_in attr (getattr_default c ''_no_environ_set'' (PTuple [])) of
           Inl e \<Rightarrow> Inl e
         | Inr listed \<Rightarrow>
             if listed then Inr (c, [Skipping k])
             else
               (case typecast hints attr (getenv env k) of
                  Inl e \<Rightarrow> Inl e
                | Inr v \<Rightarrow>
                    (case displayed attr v of
                       Inl e \<Rightarrow> Inl e
                     | Inr d \<Rightarrow> Inr (setattr c attr v, [Found k attr d])))))"

text \<open>
  What a call leaves behind: the class as mutated, the trace, and the exception that
  ended the call, if any.
\<close>

record outcome =
  settings :: settings_class
  trace :: "log_record list"
  raised :: "pyexc option"

fun update_loop ::
  "(string \<times> hint) list \<Rightarrow> string \<Rightarrow> environ \<Rightarrow> string list \<Rightarrow> settings_class
     \<Rightarrow> log_record list \<Rightarrow> outcome" where
  "update_loop hints prefix env [] c tr = \<lparr>settings = c, trace = tr, raised = None\<rparr>"
| "update_loop hints prefix env (k # ks) c tr =
     (case bind_one hints prefix env k c of
        Inl e \<Rightarrow> \<lparr>settings = c, trace = tr, raised = Some e\<rparr>
      | Inr (c', recs) \<Rightarrow> update_loop hints prefix env ks c' (tr @ recs))"

text \<open>
  The environment is the list of its entries in the order \<^verbatim>\<open>os.environ\<close> enumerates
  them. The hints are read once, before the loop (line 62).
\<close>

definition update_from_env :: "settings_class \<Rightarrow> string \<Rightarrow> environ \<Rightarrow> outcome" where
  "update_from_env settings_class prefix env =
     update_loop (type_hints settings_class) prefix env (map fst env) settings_class []"

section \<open>Concurrent calls\<close>

text \<open>
  Line 63 is \<^verbatim>\<open>with threading.Lock():\<close>. \<^verbatim>\<open>threading.Lock()\<close> is a constructor: every
  evaluation makes a new lock, unlocked. The \<^verbatim>\<open>with\<close> statement acquires the lock it is
  given (waiting while another thread holds that lock) and releases it when the block is
  left, by its end or by an exception.

  A call is \<^verbatim>\<open>Entering\<close> before line 63, \<^verbatim>\<open>Looping l ks\<close> inside the block, holding the
  lock \<^verbatim>\<open>l\<close> with the keys \<^verbatim>\<open>ks\<close> still to visit, and \<^verbatim>\<open>Returned\<close> afterwards. The
  threads share the class; one step of a thread is the entry into the block, one pass of
  the loop body, or the exit. (The interpreter may switch threads more often than that;
  every schedule of these steps is one it can produce.)
\<close>

datatype call_state = Entering | Looping nat "string list" | Returned "pyexc option"

record call =
  call_prefix :: string
  call_env :: environ
  call_hints :: "(string \<times> hint) list"
  call_state :: call_state

record world =
  shared :: settings_class
  log :: "log_record list"
  next_lock :: nat
  held :: "nat list"

definition new_call :: "settings_class \<Rightarrow> string \<Rightarrow> environ \<Rightarrow> call" where
  "new_call settings_class prefix env =
     \<lparr>call_prefix = prefix, call_env = env, call_hints = type_hints settings_class,
      call_state = Entering\<rparr>"

definition step_call :: "world \<Rightarrow> call \<Rightarrow> (world \<times> call) option" where
  "step_call w t =
     (case call_state t of
        Entering \<Rightarrow>
          (let l = next_lock w in
           if l \<in> set (held w) then None
           else Some (w\<lparr>next_lock := Suc l, held := l # held w\<rparr>,
                      t\<lparr>call_state := Looping l (map fst (call_env t))\<rparr>))
      | Looping l [] \<Rightarrow>
          Some (w\<lparr>held := removeAll l (held w)\<rparr>, t\<lparr>call_state := Returned None\<rparr>)
      | Looping l (k # ks) \<Rightarrow>
          (case bind_one (call_hints t) (call_prefix t) (call_env t) k (shared w) of
             Inl e \<Rightarrow>
               Some (w\<lparr>held := removeAll l (held w)\<rparr>, t\<lparr>call_state := Returned (Some e)\<rparr>)
           | Inr (c', recs) \<Rightarrow>
               Some (w\<lparr>shared := c', log := log w @ recs\<rparr>, t\<lparr>call_state := Looping l ks\<rparr>))
      | Returned r \<Rightarrow> None)"

text \<open>
  A schedule names the thread that takes each step. A schedule that picks a thread
  which cannot step has no result.
\<close>

fun run :: "nat list \<Rightarrow> world \<times> call list \<Rightarrow> (world \<times> call list) option" where
  "run [] s = Some s"
| "run (i # sched) (w, ts) =
     (if i < length ts then
        (case step_call w (ts ! i) of
           None \<Rightarrow> None
         | Some (w', t') \<Rightarrow> run sched (w', ts[i := t']))
      else None)"

definition start :: "settings_class \<Rightarrow> (string \<times> environ) list \<Rightarrow> world \<times> call list" where
  "start settings_class calls =
     (\<lparr>shared = settings_class, log = [], next_lock = 0, held = []\<rparr>,
      map (\<lambda>(prefix, env). new_call settings_class prefix env) calls)"

section \<open>The classes of the repository\<close>

text \<open>
  The example class \<^verbatim>\<open>Settings\<close> and the two classes of the tests, with the names they
  define in the order of the class body. (The entries the interpreter adds, such as
  \<^verbatim>\<open>__module__\<close> and \<^verbatim>\<open>__doc__\<close>, are left out.)
\<close>

definition Settings :: settings_class where
  "Settings =
     \<lparr>own = [(''_optional_settings'', PTuple []), (''_no_environ_set'', PTuple []),
             (''debug'', PBool False), (''database_dsn'', PNone)],
      inherited = [],
      type_hints = [(''_optional_settings'', TAlias), (''_no_environ_set'', TAlias),
                    (''debug'', TBool), (''database_dsn'', TStr)]\<rparr>"

definition TestSettings_missing :: settings_class where
  "TestSettings_missing =
     \<lparr>own = [(''_optional_settings'', PTuple [PStr ''optional'']),
             (''setting1'', PNone), (''setting2'', PInt 123), (''optional'', PNone)],
      inherited = [],
      type_hints = [(''setting1'', TStr), (''setting2'', TInt), (''optional'', TStr)]\<rparr>"

definition TestSettings :: settings_class where
  "TestSettings =
     \<lparr>own = [(''_no_environ_set'', PTuple [PStr ''s5'']),
             (''s1'', PNone), (''s2'', PNone), (''s3'', PNone), (''s4'', PNone),
             (''s5'', PTuple [PInt 1, PInt 2, PInt 3])],
      inherited = [],
      type_hints = [(''s1'', TInt), (''s2'', TBool), (''s3'', TStr), (''s4'', TStr),
                    (''s5'', TAlias)]\<rparr>"



definition Blank_settings :: settings_class where
  "Blank_settings =
     \<lparr>own = [(''_no_environ_set'', PTuple [PStr []]), (''s1'', PNone)],
      inherited = [],
      type_hints = [(''s1'', TInt)]\<rparr>"

text \<open>The variables that \<^verbatim>\<open>test_update_from_env\<close> sets before its call.\<close>

definition test_environ :: environ where
  "test_environ =
     [(''MYAPP_S1'', ''32''), (''MYAPP_S2'', ''1''), (''MYAPP_S3'', ''a test''),
      (''MYAPP_S5'', ''should be skipped'')]"

text \<open>
  An environment with two prefixes, for two calls that run at the same time: both
  prefixes name the fields \<^verbatim>\<open>x\<close> and \<^verbatim>\<open>y\<close>.
\<close>

definition two_prefix_environ :: environ where
  "two_prefix_environ =
     [(''A_X'', ''1''), (''B_X'', ''2''), (''B_Y'', ''4''), (''A_Y'', ''3'')]"

section \<open>Properties of \<^verbatim>\<open>get_missing_settings\<close>\<close>

lemma getattr_own:
  assumes "name \<in> fst ` set (own c)"
  shows "\<exists>v. getattr c name = Some v"
proof -
  from assms have "map_of (own c) name \<noteq> None"
    by (simp add: map_of_eq_None_iff)
  then show ?thesis
    by (auto simp: getattr_def)
qed

lemma missing_loop_filter:
  assumes opt: "getattr_default c ''_optional_settings'' (PTuple []) = PTuple opt"
    and sub: "set ns \<subseteq> fst ` set (own c)"
  shows "missing_loop c ns acc =
           Inr (acc @ filter (\<lambda>n. \<not> startswith n ''_'' \<and> PStr n \<notin> set opt
                                   \<and> getattr c n = Some PNone) ns)"
  using sub
proof (induction ns arbitrary: acc)
  case Nil
  then show ?case by simp
next
  case (Cons attr rest)
  from Cons.prems obtain v where v: "getattr c attr = Some v"
    using getattr_own [of attr c] by auto
  from Cons.prems have rest: "set rest \<subseteq> fst ` set (own c)"
    by simp
  show ?case
    using Cons.IH [OF rest] v by (simp add: opt)
qed

text \<open>
  C3. When the optional-settings list is a tuple (the declared \<^verbatim>\<open>Tuple[str]\<close>) or is
  absent, \<^verbatim>\<open>get_missing_settings\<close> raises nothing and returns exactly the names defined
  on the class itself that do not start with an underscore, are not in the list and
  whose value is \<^verbatim>\<open>None\<close>, in the order of definition. So the result is empty exactly
  when every such name has a value other than \<^verbatim>\<open>None\<close>.
\<close>

theorem get_missing_settings_spec:
  assumes "getattr_default c ''_optional_settings'' (PTuple []) = PTuple opt"
  shows "get_missing_settings c =
           Inr (filter (\<lambda>n. \<not> startswith n ''_'' \<and> PStr n \<notin> set opt
                               \<and> getattr c n = Some PNone) (map fst (own c)))
         \<and> (get_missing_settings c = Inr [] \<longleftrightarrow>
              (\<forall>n \<in> fst ` set (own c).
                 startswith n ''_'' \<or> PStr n \<in> set opt \<or> getattr c n \<noteq> Some PNone))"
proof -
  have eq: "get_missing_settings c =
           Inr (filter (\<lambda>n. \<not> startswith n ''_'' \<and> PStr n \<notin> set opt
                               \<and> getattr c n = Some PNone) (map fst (own c)))"
    using missing_loop_filter [OF assms, of "map fst (own c)" "[]"]
    by (simp add: get_missing_settings_def)
  show ?thesis
    unfolding eq by (auto simp: filter_empty_conv)
qed

theorem get_missing_settings_spec_witness:
  "getattr_default TestSettings_missing ''_optional_settings'' (PTuple [])
     = PTuple [PStr ''optional'']
   \<and> get_missing_settings TestSettings_missing = Inr [''setting1'']"
proof -
  have h: "getattr_default TestSettings_missing ''_optional_settings'' (PTuple [])
             = PTuple [PStr ''optional'']"
    by (simp add: getattr_default_def getattr_def TestSettings_missing_def)
  show ?thesis
    using h get_missing_settings_spec [OF h]
    by (simp add: TestSettings_missing_def getattr_def startswith_def)
qed

section \<open>Properties of \<^verbatim>\<open>update_from_env\<close>\<close>

text \<open>
  The assertions of \<^verbatim>\<open>test_update_from_env\<close> hold of the model: \<^verbatim>\<open>s1\<close> is the integer
  32, \<^verbatim>\<open>s2\<close> is \<^verbatim>\<open>True\<close>, \<^verbatim>\<open>s3\<close> is the string, \<^verbatim>\<open>s4\<close> is still \<^verbatim>\<open>None\<close> and \<^verbatim>\<open>s5\<close> was
  skipped.
\<close>

lemma test_update_from_env:
  "update_from_env TestSettings ''MYAPP_'' test_environ
     = \<lparr>settings =
          TestSettings\<lparr>own :=
            [(''_no_environ_set'', PTuple [PStr ''s5'']),
             (''s1'', PInt 32), (''s2'', PBool True), (''s3'', PStr ''a test''),
             (''s4'', PNone), (''s5'', PTuple [PInt 1, PInt 2, PInt 3])]\<rparr>,
        trace =
          [Found ''MYAPP_S1'' ''s1'' (Plain (PInt 32)),
           Found ''MYAPP_S2'' ''s2'' (Plain (PBool True)),
           Found ''MYAPP_S3'' ''s3'' (Plain (PStr ''a test'')),
           Skipping ''MYAPP_S5''],
        raised = None\<rparr>"
  by code_simp

subsection \<open>The name a key stands for\<close>

lemma replace_self:
  assumes "p \<noteq> []"
  shows "replace p p [] = []"
proof (cases p)
  case Nil
  with assms show ?thesis by simp
next
  case (Cons c cs)
  then show ?thesis by (simp add: startswith_def)
qed

lemma field_name_prefix:
  "prefix \<noteq> [] \<Longrightarrow> field_name prefix prefix = []"
  by (simp add: field_name_def replace_self lower_def)

text \<open>
  C6. The claim: the name is the key without its leading prefix, in lower case, and a
  later occurrence of the prefix inside the key is kept. The code calls
  \<^verbatim>\<open>k.replace(prefix, "")\<close>, which removes every occurrence: for the prefix \<^verbatim>\<open>MYAPP_\<close>
  the key \<^verbatim>\<open>MYAPP_DB_MYAPP_HOST\<close> stands for \<^verbatim>\<open>db_host\<close>, not for \<^verbatim>\<open>db_myapp_host\<close>.
\<close>

theorem inner_prefix_removed:
  "field_name ''MYAPP_'' ''MYAPP_DB_MYAPP_HOST'' = ''db_host''"
  by code_simp

subsection \<open>The typecast\<close>

lemma py_int_raises: "py_int s = Inl e \<Longrightarrow> e = ValueError"
  by (auto simp: py_int_def split: list.splits if_splits option.splits)

lemma py_int_returns: "py_int s = Inr v \<Longrightarrow> \<exists>n. v = PInt n"
  by (auto simp: py_int_def split: list.splits if_splits option.splits)

text \<open>
  The only exception that leaves the typecast is the \<^verbatim>\<open>ValueError\<close> of \<^verbatim>\<open>int\<close> on a
  string that is not a number.
\<close>

lemma typecast_raises:
  "typecast hints attr v = Inl e \<longleftrightarrow>
     e = ValueError \<and> map_of hints attr = Some TInt
     \<and> (\<exists>s. v = Some s \<and> py_int s = Inl ValueError)"
  by (auto simp: typecast_def call_hint_def
      split: option.splits hint.splits sum.splits if_splits dest: py_int_raises)

text \<open>
  C1. The claim: whenever the coercion of a raw string fails, whatever the string and
  the declared type, the raw string is stored and no exception leaves the call. The
  \<^verbatim>\<open>except\<close> clause of line 78 names \<^verbatim>\<open>AttributeError\<close>, \<^verbatim>\<open>KeyError\<close> and
  \<^verbatim>\<open>TypeError\<close>, and \<^verbatim>\<open>int\<close> raises \<^verbatim>\<open>ValueError\<close>: for the class of the test and
  \<^verbatim>\<open>MYAPP_S1=abc\<close> the call ends with a \<^verbatim>\<open>ValueError\<close>, and \<^verbatim>\<open>s1\<close> is still \<^verbatim>\<open>None\<close>.
\<close>

theorem int_coercion_failure_escapes:
  "update_from_env TestSettings ''MYAPP_'' [(''MYAPP_S1'', ''abc'')]
     = \<lparr>settings = TestSettings, trace = [], raised = Some ValueError\<rparr>"
  by code_simp

subsection \<open>One pass of the loop\<close>

lemma getattr_setattr:
  "getattr (setattr c a v) n = (if n = a then Some v else getattr c n)"
  by (simp add: getattr_def setattr_def update_conv' split: option.splits)

lemma bind_one_cases:
  assumes "bind_one hints prefix env k c = Inr (c', recs)"
  shows "c' = c \<or>
         (\<exists>v. c' = setattr c (field_name prefix k) v \<and> startswith k prefix
            \<and> py_in (field_name prefix k) (getattr_default c ''_no_environ_set'' (PTuple []))
                = Inr False)"
  using assms
  by (auto simp: bind_one_def Let_def split: if_splits sum.splits)









text \<open>
  C10. For a non-empty prefix and a key that is exactly the prefix, the name is the
  empty string. Unless the empty name is in the no-environ-override list, the pass does
  not skip the key: with no type declared for the empty name, it assigns the raw value
  to the attribute whose name is the empty string.
\<close>

theorem empty_suffix_bound:
  assumes "prefix \<noteq> []"
    and "getenv env prefix = Some raw"
    and "py_in [] (getattr_default c ''_no_environ_set'' (PTuple [])) = Inr False"
    and "map_of hints [] = None"
  shows "field_name prefix prefix = []
         \<and> bind_one hints prefix env prefix c
             = Inr (setattr c [] (PStr raw), [Found prefix [] (Plain (PStr raw))])
         \<and> getattr (setattr c [] (PStr raw)) [] = Some (PStr raw)"
  using assms
  by (simp add: bind_one_def Let_def field_name_prefix startswith_def typecast_def
      call_hint_def raw_value_def displayed_def getattr_setattr)

theorem empty_suffix_bound_witness:
  "getenv [(''MYAPP_'', ''v'')] ''MYAPP_'' = Some ''v''
   \<and> field_name ''MYAPP_'' ''MYAPP_'' = []
   \<and> bind_one (type_hints TestSettings) ''MYAPP_'' [(''MYAPP_'', ''v'')] ''MYAPP_'' TestSettings
       = Inr (setattr TestSettings [] (PStr ''v''), [Found ''MYAPP_'' [] (Plain (PStr ''v''))])
   \<and> getattr (setattr TestSettings [] (PStr ''v'')) [] = Some (PStr ''v'')
   \<and> getattr (settings (update_from_env TestSettings ''MYAPP_'' [(''MYAPP_'', ''v'')])) []
       = Some (PStr ''v'')"
proof -
  have call: "getattr (settings (update_from_env TestSettings ''MYAPP_'' [(''MYAPP_'', ''v'')])) []
                = Some (PStr ''v'')"
    by code_simp
  have h1: "''MYAPP_'' \<noteq> []"
    by simp
  have h2: "getenv [(''MYAPP_'', ''v'')] ''MYAPP_'' = Some ''v''"
    by (simp add: getenv_def)
  have h3: "py_in [] (getattr_default TestSettings ''_no_environ_set'' (PTuple [])) = Inr False"
    by (simp add: getattr_default_def getattr_def TestSettings_def)
  have h4: "map_of (type_hints TestSettings) [] = None"
    by (simp add: TestSettings_def)
  from empty_suffix_bound [OF h1 h2 h3 h4] h2 call show ?thesis
    by simp
qed

text \<open>
  The claim of C10 as it is written is about every settings class. A class that lists
  the empty name in \<^verbatim>\<open>_no_environ_set\<close> has the key skipped by line 70, like any other
  listed name.
\<close>

theorem empty_name_skipped:
  "update_from_env Blank_settings ''MYAPP_'' [(''MYAPP_'', ''v'')]
     = \<lparr>settings = Blank_settings, trace = [Skipping ''MYAPP_''], raised = None\<rparr>"
  by code_simp

subsection \<open>The names the environment may not set\<close>

text \<open>
  As long as no key with the prefix stands for the name \<^verbatim>\<open>_no_environ_set\<close> itself, the
  list that line 70 reads is the same in every pass, and a name in it keeps its value.
\<close>

lemma update_loop_frame:
  assumes "\<forall>k \<in> set ks. startswith k prefix \<longrightarrow> field_name prefix k \<noteq> ''_no_environ_set''"
    and "py_in name (getattr_default c ''_no_environ_set'' (PTuple [])) = Inr True"
  shows "getattr (settings (update_loop hints prefix env ks c tr)) name = getattr c name"
  using assms
proof (induction ks arbitrary: c tr)
  case Nil
  then show ?case by simp
next
  case (Cons k ks)
  show ?case
  proof (cases "bind_one hints prefix env k c")
    case (Inl e)
    then show ?thesis by simp
  next
    case (Inr r)
    obtain c' recs where r: "r = (c', recs)" by (cases r)
    from bind_one_cases [OF Inr [unfolded r]]
    have keep: "getattr c' name = getattr c name
                \<and> getattr_default c' ''_no_environ_set'' (PTuple [])
                    = getattr_default c ''_no_environ_set'' (PTuple [])"
    proof
      assume "c' = c"
      then show ?thesis by simp
    next
      assume "\<exists>v. c' = setattr c (field_name prefix k) v \<and> startswith k prefix
                 \<and> py_in (field_name prefix k)
                      (getattr_default c ''_no_environ_set'' (PTuple [])) = Inr False"
      then obtain v where c': "c' = setattr c (field_name prefix k) v"
        and m: "startswith k prefix"
        and out: "py_in (field_name prefix k)
                    (getattr_default c ''_no_environ_set'' (PTuple [])) = Inr False"
        by blast
      from m Cons.prems(1) have ne: "field_name prefix k \<noteq> ''_no_environ_set''"
        by simp
      from out Cons.prems(2) have "name \<noteq> field_name prefix k"
        by auto
      with ne show ?thesis
        by (simp add: c' getattr_setattr getattr_default_def)
    qed
    from Cons.prems(1)
    have rest: "\<forall>k \<in> set ks. startswith k prefix \<longrightarrow> field_name prefix k \<noteq> ''_no_environ_set''"
      by simp
    from Cons.prems(2) keep
    have listed: "py_in name (getattr_default c' ''_no_environ_set'' (PTuple [])) = Inr True"
      by simp
    show ?thesis
      using Cons.IH [OF rest listed, of "tr @ recs"] keep Inr r by simp
  qed
qed

lemma update_from_env_frame:
  assumes "\<forall>k \<in> fst ` set env. startswith k prefix \<longrightarrow> field_name prefix k \<noteq> ''_no_environ_set''"
    and "py_in name (getattr_default c ''_no_environ_set'' (PTuple [])) = Inr True"
  shows "getattr (settings (update_from_env c prefix env)) name = getattr c name"
  unfolding update_from_env_def
  by (rule update_loop_frame) (use assms in simp_all)

text \<open>
  C4. The claim: a field in the no-environ-override list keeps its value, whatever
  variables with the prefix exist. The list is itself an attribute of the class, read
  anew in every pass, and nothing keeps the environment from setting it. In the class of
  the test, \<^verbatim>\<open>s5\<close> is in the list; with \<^verbatim>\<open>MYAPP__NO_ENVIRON_SET=zzz\<close> enumerated before
  \<^verbatim>\<open>MYAPP_S5=v\<close>, the list becomes the string \<^verbatim>\<open>zzz\<close>, which does not contain \<^verbatim>\<open>s5\<close>, and
  \<^verbatim>\<open>s5\<close> is overwritten.
\<close>

theorem no_environ_list_rebound:
  "py_in ''s5'' (getattr_default TestSettings ''_no_environ_set'' (PTuple [])) = Inr True
   \<and> getattr TestSettings ''s5'' = Some (PTuple [PInt 1, PInt 2, PInt 3])
   \<and> update_from_env TestSettings ''MYAPP_''
         [(''MYAPP__NO_ENVIRON_SET'', ''zzz''), (''MYAPP_S5'', ''v'')]
       = \<lparr>settings =
            setattr (setattr TestSettings ''_no_environ_set'' (PStr ''zzz'')) ''s5'' (PStr ''v''),
          trace = [Found ''MYAPP__NO_ENVIRON_SET'' ''_no_environ_set'' (Plain (PStr ''zzz'')),
                   Found ''MYAPP_S5'' ''s5'' (Plain (PStr ''v''))],
          raised = None\<rparr>
   \<and> getattr (settings (update_from_env TestSettings ''MYAPP_''
         [(''MYAPP__NO_ENVIRON_SET'', ''zzz''), (''MYAPP_S5'', ''v'')])) ''s5'' = Some (PStr ''v'')"
  by code_simp

subsection \<open>Calling twice\<close>

text \<open>
  The assignments of a call, one after the other, are a fold of \<^verbatim>\<open>AList.update\<close> over
  the class's own namespace. Doing the same assignments a second time changes nothing.
\<close>

lemma update_commute:
  assumes "a \<noteq> b" and "a \<in> fst ` set al"
  shows "AList.update a v (AList.update b w al) = AList.update b w (AList.update a v al)"
  using assms by (induction al) auto

lemma dom_fold_update:
  "fst ` set (fold (\<lambda>(a, v). AList.update a v) xs al) = fst ` set al \<union> fst ` set xs"
proof (induction xs arbitrary: al)
  case Nil
  then show ?case by simp
next
  case (Cons x xs)
  obtain a v where x: "x = (a, v)" by (cases x)
  have "fst ` set (fold (\<lambda>(a, v). AList.update a v) (x # xs) al)
          = fst ` set (AList.update a v al) \<union> fst ` set xs"
    using Cons.IH [of "AList.update a v al"] by (simp add: x)
  also have "\<dots> = ({a} \<union> fst ` set al) \<union> fst ` set xs"
    by (simp only: dom_update)
  finally show ?case
    by (auto simp: x)
qed

lemma map_of_fold_update_other:
  assumes "n \<notin> fst ` set xs"
  shows "map_of (fold (\<lambda>(a, v). AList.update a v) xs al) n = map_of al n"
  using assms by (induction xs arbitrary: al) (auto simp: update_conv')

lemma fold_update_absorb:
  assumes "a \<in> fst ` set xs" and "a \<in> fst ` set al"
  shows "fold (\<lambda>(a, v). AList.update a v) xs (AList.update a v al)
           = fold (\<lambda>(a, v). AList.update a v) xs al"
  using assms
proof (induction xs arbitrary: al)
  case Nil
  then show ?case by simp
next
  case (Cons x xs)
  obtain b w where x: "x = (b, w)" by (cases x)
  show ?case
  proof (cases "b = a")
    case True
    with x show ?thesis by simp
  next
    case False
    with Cons.prems x have in_xs: "a \<in> fst ` set xs"
      by auto
    have in_al: "a \<in> fst ` set (AList.update b w al)"
      using Cons.prems(2) by (simp add: dom_update)
    have "AList.update b w (AList.update a v al) = AList.update a v (AList.update b w al)"
      using False Cons.prems(2) update_commute [of a b al v w] by simp
    then show ?thesis
      using Cons.IH [OF in_xs in_al] x by simp
  qed
qed

lemma fold_update_twice:
  "fold (\<lambda>(a, v). AList.update a v) xs (fold (\<lambda>(a, v). AList.update a v) xs al)
     = fold (\<lambda>(a, v). AList.update a v) xs al"
proof (induction xs arbitrary: al)
  case Nil
  then show ?case by simp
next
  case (Cons x xs)
  obtain a v where x: "x = (a, v)" by (cases x)
  let ?B = "AList.update a v al"
  let ?C = "fold (\<lambda>(a, v). AList.update a v) xs ?B"
  have IH: "fold (\<lambda>(a, v). AList.update a v) xs ?C = ?C"
    by (rule Cons.IH)
  have in_C: "a \<in> fst ` set ?C"
    by (simp add: dom_fold_update dom_update)
  have "fold (\<lambda>(a, v). AList.update a v) xs (AList.update a v ?C) = ?C"
  proof (cases "a \<in> fst ` set xs")
    case True
    from fold_update_absorb [OF True in_C] IH show ?thesis by simp
  next
    case False
    then have "map_of ?C a = Some v"
      by (simp add: map_of_fold_update_other update_conv')
    then have "AList.update a v ?C = ?C"
      by (rule update_triv)
    with IH show ?thesis by simp
  qed
  then show ?case by (simp add: x)
qed

text \<open>
  With the list of line 70 fixed, what the loop does is the same for every class it
  starts from: the same assignments, the same trace, the same exception.
\<close>

lemma update_loop_effects:
  assumes "\<forall>k \<in> set ks. startswith k prefix \<longrightarrow> field_name prefix k \<noteq> ''_no_environ_set''"
  shows "\<exists>effs recs exc. ''_no_environ_set'' \<notin> fst ` set effs \<and>
           (\<forall>c tr. getattr_default c ''_no_environ_set'' (PTuple []) = L \<longrightarrow>
              update_loop hints prefix env ks c tr
                = \<lparr>settings = c\<lparr>own := fold (\<lambda>(a, v). AList.update a v) effs (own c)\<rparr>,
                   trace = tr @ recs, raised = exc\<rparr>)"
  using assms
proof (induction ks)
  case Nil
  have "''_no_environ_set'' \<notin> fst ` set ([] :: (string \<times> pyval) list) \<and>
           (\<forall>c tr. getattr_default c ''_no_environ_set'' (PTuple []) = L \<longrightarrow>
              update_loop hints prefix env [] c tr
                = \<lparr>settings = c\<lparr>own := fold (\<lambda>(a, v). AList.update a v) [] (own c)\<rparr>,
                   trace = tr @ [], raised = None\<rparr>)"
    by simp
  then show ?case by blast
next
  case (Cons k ks)
  from Cons.prems
  have rest: "\<forall>k \<in> set ks. startswith k prefix \<longrightarrow> field_name prefix k \<noteq> ''_no_environ_set''"
    and here: "startswith k prefix \<longrightarrow> field_name prefix k \<noteq> ''_no_environ_set''"
    by simp_all
  from Cons.IH [OF rest] obtain effs recs exc where
    nl: "''_no_environ_set'' \<notin> fst ` set effs"
    and run: "\<And>c tr. getattr_default c ''_no_environ_set'' (PTuple []) = L \<Longrightarrow>
              update_loop hints prefix env ks c tr
                = \<lparr>settings = c\<lparr>own := fold (\<lambda>(a, v). AList.update a v) effs (own c)\<rparr>,
                   trace = tr @ recs, raised = exc\<rparr>"
    by blast
  let ?a = "field_name prefix k"
  let ?goal = "\<lambda>effs recs exc. ''_no_environ_set'' \<notin> fst ` set effs \<and>
           (\<forall>c tr. getattr_default c ''_no_environ_set'' (PTuple []) = L \<longrightarrow>
              update_loop hints prefix env (k # ks) c tr
                = \<lparr>settings = c\<lparr>own := fold (\<lambda>(a, v). AList.update a v) effs (own c)\<rparr>,
                   trace = tr @ recs, raised = exc\<rparr>)"
  have raise: "?goal [] [] (Some e)"
    if "\<And>c. getattr_default c ''_no_environ_set'' (PTuple []) = L
          \<Longrightarrow> bind_one hints prefix env k c = Inl e" for e
    using that by simp
  have keep: "?goal effs (rs @ recs) exc"
    if "\<And>c. getattr_default c ''_no_environ_set'' (PTuple []) = L
          \<Longrightarrow> bind_one hints prefix env k c = Inr (c, rs)" for rs
    using that nl run by simp
  have assign: "?goal ((?a, v) # effs) (rs @ recs) exc"
    if ne: "?a \<noteq> ''_no_environ_set''"
      and b: "\<And>c. getattr_default c ''_no_environ_set'' (PTuple []) = L
          \<Longrightarrow> bind_one hints prefix env k c = Inr (setattr c ?a v, rs)" for v rs
  proof (intro conjI allI impI)
    show "''_no_environ_set'' \<notin> fst ` set ((?a, v) # effs)"
      using ne nl by auto
  next
    fix c tr
    assume L: "getattr_default c ''_no_environ_set'' (PTuple []) = L"
    have L': "getattr_default (setattr c ?a v) ''_no_environ_set'' (PTuple []) = L"
      using L ne by (simp add: getattr_default_def getattr_setattr)
    show "update_loop hints prefix env (k # ks) c tr
            = \<lparr>settings = c\<lparr>own := fold (\<lambda>(a, v). AList.update a v) ((?a, v) # effs) (own c)\<rparr>,
               trace = tr @ rs @ recs, raised = exc\<rparr>"
      using b [OF L] run [OF L', of "tr @ rs"] by (simp add: setattr_def)
  qed
  show ?case
  proof (cases "startswith k prefix")
    case False
    then have "?goal effs ([] @ recs) exc"
      by (intro keep) (simp add: bind_one_def)
    then show ?thesis by blast
  next
    case match: True
    with here have ne: "?a \<noteq> ''_no_environ_set''" by simp
    show ?thesis
    proof (cases "py_in ?a L")
      case (Inl e)
      with match have "?goal [] [] (Some e)"
        by (intro raise) (simp add: bind_one_def Let_def)
      then show ?thesis by blast
    next
      case (Inr listed)
      show ?thesis
      proof (cases listed)
        case True
        with Inr match have "?goal effs ([Skipping k] @ recs) exc"
          by (intro keep) (simp add: bind_one_def Let_def)
        then show ?thesis by blast
      next
        case False
        with Inr have out: "py_in ?a L = Inr False" by simp
        show ?thesis
        proof (cases "typecast hints ?a (getenv env k)")
          case (Inl e)
          with match out have "?goal [] [] (Some e)"
            by (intro raise) (simp add: bind_one_def Let_def)
          then show ?thesis by blast
        next
          case tc: (Inr v)
          show ?thesis
          proof (cases "displayed ?a v")
            case (Inl e)
            with tc match out have "?goal [] [] (Some e)"
              by (intro raise) (simp add: bind_one_def Let_def)
            then show ?thesis by blast
          next
            case (Inr d)
            with tc match out have "?goal ((?a, v) # effs) ([Found k ?a d] @ recs) exc"
              by (intro assign [OF ne]) (simp add: bind_one_def Let_def)
            then show ?thesis by blast
          qed
        qed
      qed
    qed
  qed
qed

text \<open>
  So a second call with the same environment and prefix ends exactly as the first did,
  as long as no key with the prefix stands for the name \<^verbatim>\<open>_no_environ_set\<close>.
\<close>

lemma update_from_env_twice:
  assumes "\<forall>k \<in> fst ` set env. startswith k prefix \<longrightarrow> field_name prefix k \<noteq> ''_no_environ_set''"
  shows "update_from_env (settings (update_from_env c prefix env)) prefix env
           = update_from_env c prefix env"
proof -
  let ?L = "getattr_default c ''_no_environ_set'' (PTuple [])"
  from assms
  have "\<forall>k \<in> set (map fst env). startswith k prefix \<longrightarrow> field_name prefix k \<noteq> ''_no_environ_set''"
    by simp
  from update_loop_effects [OF this, of ?L "type_hints c" env]
  obtain effs recs exc where
    nl: "''_no_environ_set'' \<notin> fst ` set effs"
    and run: "\<And>c' tr. getattr_default c' ''_no_environ_set'' (PTuple []) = ?L \<Longrightarrow>
              update_loop (type_hints c) prefix env (map fst env) c' tr
                = \<lparr>settings = c'\<lparr>own := fold (\<lambda>(a, v). AList.update a v) effs (own c')\<rparr>,
                   trace = tr @ recs, raised = exc\<rparr>"
    by blast
  let ?c1 = "c\<lparr>own := fold (\<lambda>(a, v). AList.update a v) effs (own c)\<rparr>"
  have first: "update_from_env c prefix env = \<lparr>settings = ?c1, trace = recs, raised = exc\<rparr>"
    using run [OF refl, of "[]"] by (simp add: update_from_env_def)
  have L1: "getattr_default ?c1 ''_no_environ_set'' (PTuple []) = ?L"
    using nl by (simp add: getattr_default_def getattr_def map_of_fold_update_other
        split: option.splits)
  have "update_from_env ?c1 prefix env = \<lparr>settings = ?c1, trace = recs, raised = exc\<rparr>"
    using run [OF L1, of "[]"] by (simp add: update_from_env_def fold_update_twice)
  with first show ?thesis by simp
qed

text \<open>
  C9. The claim: a second call with the same environment and prefix leaves every field
  as the first call left it. The first call can change the list that the second call
  reads at line 70. In the class of the test, with \<^verbatim>\<open>MYAPP_S5=x\<close> enumerated before
  \<^verbatim>\<open>MYAPP__NO_ENVIRON_SET=zzz\<close>, the first call skips \<^verbatim>\<open>s5\<close> and then replaces the list;
  the second call finds \<^verbatim>\<open>s5\<close> no longer listed and overwrites it.
\<close>

theorem second_call_differs:
  "getattr (settings (update_from_env TestSettings ''MYAPP_''
       [(''MYAPP_S5'', ''x''), (''MYAPP__NO_ENVIRON_SET'', ''zzz'')])) ''s5''
     = Some (PTuple [PInt 1, PInt 2, PInt 3])
   \<and> getattr (settings (update_from_env
         (settings (update_from_env TestSettings ''MYAPP_''
            [(''MYAPP_S5'', ''x''), (''MYAPP__NO_ENVIRON_SET'', ''zzz'')]))
         ''MYAPP_'' [(''MYAPP_S5'', ''x''), (''MYAPP__NO_ENVIRON_SET'', ''zzz'')])) ''s5''
     = Some (PStr ''x'')"
  by code_simp

subsection \<open>Values of fields named like a password\<close>

lemma password_not_list_name: "str_contains a ''password'' \<Longrightarrow> a \<noteq> ''_no_environ_set''"
  by (auto simp: startswith_def)

text \<open>
  What one pass shows of a password: the typecast and the display either raise for
  both values, or show the same thing for both.
\<close>

lemma masked_display:
  assumes "str_contains attr ''password''" and "take 4 s = take 4 s'"
  shows "(\<exists>e e'. (typecast hints attr (Some s) = Inl e \<or>
                   (\<exists>v. typecast hints attr (Some s) = Inr v \<and> displayed attr v = Inl e))
              \<and> (typecast hints attr (Some s') = Inl e' \<or>
                   (\<exists>v. typecast hints attr (Some s') = Inr v \<and> displayed attr v = Inl e')))
         \<or> (\<exists>v v' d. typecast hints attr (Some s) = Inr v \<and> typecast hints attr (Some s') = Inr v'
                \<and> displayed attr v = Inr d \<and> displayed attr v' = Inr d)"
proof (cases "map_of hints attr")
  case None
  with assms show ?thesis
    by (simp add: typecast_def call_hint_def raw_value_def displayed_def)
next
  case (Some h)
  show ?thesis
  proof (cases h)
    case TInt
    have "\<And>t. typecast hints attr (Some t) = Inl ValueError \<or>
            (\<exists>n. typecast hints attr (Some t) = Inr (PInt n))"
      using Some TInt py_int_raises py_int_returns
      by (fastforce simp: typecast_def call_hint_def split: sum.splits)
    then have "\<And>t. typecast hints attr (Some t) = Inl ValueError \<or>
            (\<exists>v. typecast hints attr (Some t) = Inr v \<and> displayed attr v = Inl TypeError)"
      using assms(1) by (fastforce simp: displayed_def)
    then show ?thesis by blast
  next
    case TBool
    with Some assms show ?thesis
      by (simp add: typecast_def call_hint_def displayed_def)
  next
    case TStr
    with Some assms show ?thesis
      by (simp add: typecast_def call_hint_def displayed_def)
  next
    case TAlias
    with Some assms show ?thesis
      by (simp add: typecast_def call_hint_def raw_value_def displayed_def)
  qed
qed

lemma bind_one_masked:
  assumes L: "getattr_default c ''_no_environ_set'' (PTuple [])
               = getattr_default c' ''_no_environ_set'' (PTuple [])"
    and v: "getenv env k = getenv env' k \<or>
            (\<exists>s s'. getenv env k = Some s \<and> getenv env' k = Some s' \<and> startswith k prefix
                \<and> str_contains (field_name prefix k) ''password'' \<and> take 4 s = take 4 s')"
  shows "(\<exists>e e'. bind_one hints prefix env k c = Inl e \<and> bind_one hints prefix env' k c' = Inl e')
       \<or> (\<exists>c1 c1' recs. bind_one hints prefix env k c = Inr (c1, recs)
             \<and> bind_one hints prefix env' k c' = Inr (c1', recs)
             \<and> getattr_default c1 ''_no_environ_set'' (PTuple [])
                 = getattr_default c1' ''_no_environ_set'' (PTuple []))"
proof (cases "startswith k prefix")
  case False
  with L show ?thesis by (simp add: bind_one_def Let_def)
next
  case match: True
  let ?a = "field_name prefix k"
  show ?thesis
  proof (cases "py_in ?a (getattr_default c ''_no_environ_set'' (PTuple []))")
    case (Inl e)
    with match L show ?thesis by (simp add: bind_one_def Let_def)
  next
    case (Inr listed)
    show ?thesis
    proof (cases listed)
      case True
      with Inr match L show ?thesis by (simp add: bind_one_def Let_def)
    next
      case False
      from Inr False
      have out: "py_in ?a (getattr_default c ''_no_environ_set'' (PTuple [])) = Inr False"
        by simp
      have out': "py_in ?a (getattr_default c' ''_no_environ_set'' (PTuple [])) = Inr False"
        using out L by simp
      from v show ?thesis
      proof
        assume same: "getenv env k = getenv env' k"
        show ?thesis
        proof (cases "typecast hints ?a (getenv env' k)")
          case (Inl e)
          with match out out' same show ?thesis by (simp add: bind_one_def Let_def)
        next
          case tc: (Inr x)
          show ?thesis
          proof (cases "displayed ?a x")
            case (Inl e)
            with tc match out out' same show ?thesis by (simp add: bind_one_def Let_def)
          next
            case (Inr d)
            with tc match out out' same L show ?thesis
              by (simp add: bind_one_def Let_def getattr_default_def getattr_setattr)
          qed
        qed
      next
        assume "\<exists>s s'. getenv env k = Some s \<and> getenv env' k = Some s' \<and> startswith k prefix
                \<and> str_contains ?a ''password'' \<and> take 4 s = take 4 s'"
        then obtain s s' where s: "getenv env k = Some s" and s': "getenv env' k = Some s'"
          and pw: "str_contains ?a ''password''" and t: "take 4 s = take 4 s'"
          by blast
        from pw have ne: "?a \<noteq> ''_no_environ_set''"
          by (rule password_not_list_name)
        from masked_display [OF pw t, of hints] show ?thesis
        proof
          assume "\<exists>e e'. (typecast hints ?a (Some s) = Inl e \<or>
                   (\<exists>v. typecast hints ?a (Some s) = Inr v \<and> displayed ?a v = Inl e))
              \<and> (typecast hints ?a (Some s') = Inl e' \<or>
                   (\<exists>v. typecast hints ?a (Some s') = Inr v \<and> displayed ?a v = Inl e'))"
          then have "(\<exists>e. bind_one hints prefix env k c = Inl e)
                   \<and> (\<exists>e'. bind_one hints prefix env' k c' = Inl e')"
            using match out out' s s' by (auto simp: bind_one_def Let_def)
          then show ?thesis by blast
        next
          assume "\<exists>v v' d. typecast hints ?a (Some s) = Inr v \<and> typecast hints ?a (Some s') = Inr v'
                \<and> displayed ?a v = Inr d \<and> displayed ?a v' = Inr d"
          then obtain x x' d where "typecast hints ?a (Some s) = Inr x"
            "typecast hints ?a (Some s') = Inr x'" "displayed ?a x = Inr d" "displayed ?a x' = Inr d"
            by blast
          with match out out' s s' ne L show ?thesis
            by (simp add: bind_one_def Let_def getattr_default_def getattr_setattr)
        qed
      qed
    qed
  qed
qed

lemma update_loop_masked:
  assumes "getattr_default c ''_no_environ_set'' (PTuple [])
               = getattr_default c' ''_no_environ_set'' (PTuple [])"
    and "\<forall>k \<in> set ks. getenv env k = getenv env' k \<or>
            (\<exists>s s'. getenv env k = Some s \<and> getenv env' k = Some s' \<and> startswith k prefix
                \<and> str_contains (field_name prefix k) ''password'' \<and> take 4 s = take 4 s')"
  shows "trace (update_loop hints prefix env ks c tr) = trace (update_loop hints prefix env' ks c' tr)"
  using assms
proof (induction ks arbitrary: c c' tr)
  case Nil
  then show ?case by simp
next
  case (Cons k ks)
  from Cons.prems(2) have here: "getenv env k = getenv env' k \<or>
            (\<exists>s s'. getenv env k = Some s \<and> getenv env' k = Some s' \<and> startswith k prefix
                \<and> str_contains (field_name prefix k) ''password'' \<and> take 4 s = take 4 s')"
    and rest: "\<forall>k \<in> set ks. getenv env k = getenv env' k \<or>
            (\<exists>s s'. getenv env k = Some s \<and> getenv env' k = Some s' \<and> startswith k prefix
                \<and> str_contains (field_name prefix k) ''password'' \<and> take 4 s = take 4 s')"
    by simp_all
  from bind_one_masked [OF Cons.prems(1) here, of hints] show ?case
  proof
    assume "\<exists>e e'. bind_one hints prefix env k c = Inl e \<and> bind_one hints prefix env' k c' = Inl e'"
    then show ?thesis by auto
  next
    assume "\<exists>c1 c1' recs. bind_one hints prefix env k c = Inr (c1, recs)
             \<and> bind_one hints prefix env' k c' = Inr (c1', recs)
             \<and> getattr_default c1 ''_no_environ_set'' (PTuple [])
                 = getattr_default c1' ''_no_environ_set'' (PTuple [])"
    then obtain c1 c1' recs where b: "bind_one hints prefix env k c = Inr (c1, recs)"
      and b': "bind_one hints prefix env' k c' = Inr (c1', recs)"
      and L1: "getattr_default c1 ''_no_environ_set'' (PTuple [])
                 = getattr_default c1' ''_no_environ_set'' (PTuple [])"
      by blast
    show ?thesis
      using Cons.IH [OF L1 rest, of "tr @ recs"] b b' by simp
  qed
qed

lemma alike_env:
  assumes "list_all2 (\<lambda>(k, s) (k', s'). k = k' \<and> (s = s' \<or> P k s s')) env env'"
  shows "map fst env = map fst env'
         \<and> (getenv env k = getenv env' k \<or>
             (\<exists>s s'. getenv env k = Some s \<and> getenv env' k = Some s' \<and> P k s s'))"
  using assms
  by (induction env env' rule: list_all2_induct) (auto simp: getenv_def)

text \<open>
  C5. For a name that contains \<^verbatim>\<open>password\<close>, a string value is shown as the marker
  \<^verbatim>\<open>****\<close> followed by the first four characters of the value (all of it when it has
  at most four). Nothing else of the value reaches the trace: two environments with the
  same keys, whose values differ only for such names and only after the fourth
  character, give the same trace.
\<close>

theorem password_trace_masked:
  "(str_contains attr ''password'' \<longrightarrow>
      displayed attr (PStr s) = Inr (Masked (PStr (take 4 s))))
   \<and> (list_all2 (\<lambda>(k, s) (k', s'). k = k' \<and>
          (s = s' \<or> (startswith k prefix \<and> str_contains (field_name prefix k) ''password''
                      \<and> take 4 s = take 4 s'))) env env' \<longrightarrow>
      trace (update_from_env c prefix env) = trace (update_from_env c prefix env'))"
proof (intro conjI impI)
  assume "str_contains attr ''password''"
  then show "displayed attr (PStr s) = Inr (Masked (PStr (take 4 s)))"
    by (simp add: displayed_def)
next
  assume rel: "list_all2 (\<lambda>(k, s) (k', s'). k = k' \<and>
          (s = s' \<or> (startswith k prefix \<and> str_contains (field_name prefix k) ''password''
                      \<and> take 4 s = take 4 s'))) env env'"
  have keys: "map fst env = map fst env'"
    using alike_env [OF rel] by simp
  have vals: "\<forall>k \<in> set (map fst env). getenv env k = getenv env' k \<or>
            (\<exists>s s'. getenv env k = Some s \<and> getenv env' k = Some s' \<and> startswith k prefix
                \<and> str_contains (field_name prefix k) ''password'' \<and> take 4 s = take 4 s')"
    using alike_env [OF rel] by blast
  show "trace (update_from_env c prefix env) = trace (update_from_env c prefix env')"
    unfolding update_from_env_def keys [symmetric]
    by (rule update_loop_masked [OF refl vals])
qed

theorem password_trace_masked_witness:
  "trace (update_from_env Settings ''APP_'' [(''APP_DB_PASSWORD'', ''supersecret'')])
     = trace (update_from_env Settings ''APP_'' [(''APP_DB_PASSWORD'', ''supermarket'')])
   \<and> displayed ''db_password'' (PStr ''supersecret'') = Inr (Masked (PStr ''supe''))"
proof -
  have pw: "str_contains ''db_password'' ''password''"
    by code_simp
  have fn: "field_name ''APP_'' ''APP_DB_PASSWORD'' = ''db_password''"
    by code_simp
  have rel: "list_all2 (\<lambda>(k, s) (k', s'). k = k' \<and>
          (s = s' \<or> (startswith k ''APP_'' \<and> str_contains (field_name ''APP_'' k) ''password''
                      \<and> take 4 s = take 4 s')))
       [(''APP_DB_PASSWORD'', ''supersecret'')] [(''APP_DB_PASSWORD'', ''supermarket'')]"
    using pw by (simp add: fn startswith_def)
  note t = password_trace_masked [of "''db_password''" "''supersecret''" "''APP_''"
        "[(''APP_DB_PASSWORD'', ''supersecret'')]" "[(''APP_DB_PASSWORD'', ''supermarket'')]" Settings]
  from t pw have a: "displayed ''db_password'' (PStr ''supersecret'') = Inr (Masked (PStr (take 4 ''supersecret'')))"
    by blast
  from t rel have b: "trace (update_from_env Settings ''APP_'' [(''APP_DB_PASSWORD'', ''supersecret'')])
     = trace (update_from_env Settings ''APP_'' [(''APP_DB_PASSWORD'', ''supermarket'')])"
    by blast
  from a have a': "displayed ''db_password'' (PStr ''supersecret'') = Inr (Masked (PStr ''supe''))"
    by simp
  show ?thesis
    by (rule conjI [OF b a'])
qed

text \<open>
  The claim of C5 as it is written is for a value of any length, shown as a prefix
  followed by the marker. The code shows the marker first, and a value of three
  characters is shown whole: \<^verbatim>\<open>APP_DB_PASSWORD=abc\<close> is traced as \<^verbatim>\<open>****abc\<close>.
\<close>

theorem short_password_shown_whole:
  "trace (update_from_env Settings ''APP_'' [(''APP_DB_PASSWORD'', ''abc'')])
     = [Found ''APP_DB_PASSWORD'' ''db_password'' (Masked (PStr ''abc''))]"
  by code_simp

section \<open>Properties of concurrent calls\<close>

text \<open>
  A call that runs alone goes through the steps of \<^verbatim>\<open>update_from_env\<close>: it ends with
  the class, the trace and the exception that the function gives, and holds no lock
  afterwards.
\<close>

lemma run_loop_alone:
  assumes "call_state t = Looping l ks"
  shows "\<exists>n. run (replicate n 0) (w, [t])
           = Some (w\<lparr>shared := settings (update_loop (call_hints t) (call_prefix t) (call_env t)
                                           ks (shared w) (log w)),
                     log := trace (update_loop (call_hints t) (call_prefix t) (call_env t)
                                           ks (shared w) (log w)),
                     held := removeAll l (held w)\<rparr>,
                   [t\<lparr>call_state := Returned (raised (update_loop (call_hints t) (call_prefix t)
                                           (call_env t) ks (shared w) (log w)))\<rparr>])"
  using assms
proof (induction ks arbitrary: w t)
  case Nil
  then have "run (replicate 1 0) (w, [t])
           = Some (w\<lparr>shared := settings (update_loop (call_hints t) (call_prefix t) (call_env t)
                                           [] (shared w) (log w)),
                     log := trace (update_loop (call_hints t) (call_prefix t) (call_env t)
                                           [] (shared w) (log w)),
                     held := removeAll l (held w)\<rparr>,
                   [t\<lparr>call_state := Returned (raised (update_loop (call_hints t) (call_prefix t)
                                           (call_env t) [] (shared w) (log w)))\<rparr>])"
    by (simp add: step_call_def)
  then show ?case by blast
next
  case (Cons k ks)
  show ?case
  proof (cases "bind_one (call_hints t) (call_prefix t) (call_env t) k (shared w)")
    case (Inl e)
    with Cons.prems have "run (replicate 1 0) (w, [t])
           = Some (w\<lparr>shared := settings (update_loop (call_hints t) (call_prefix t) (call_env t)
                                           (k # ks) (shared w) (log w)),
                     log := trace (update_loop (call_hints t) (call_prefix t) (call_env t)
                                           (k # ks) (shared w) (log w)),
                     held := removeAll l (held w)\<rparr>,
                   [t\<lparr>call_state := Returned (raised (update_loop (call_hints t) (call_prefix t)
                                           (call_env t) (k # ks) (shared w) (log w)))\<rparr>])"
      by (simp add: step_call_def)
    then show ?thesis by blast
  next
    case (Inr r)
    obtain c' recs where r: "r = (c', recs)" by (cases r)
    let ?w = "w\<lparr>shared := c', log := log w @ recs\<rparr>"
    let ?t = "t\<lparr>call_state := Looping l ks\<rparr>"
    have first: "run (0 # sched) (w, [t]) = run sched (?w, [?t])" for sched
      using Cons.prems Inr r by (simp add: step_call_def)
    have "call_state ?t = Looping l ks"
      by simp
    from Cons.IH [OF this, of ?w] obtain n where
      "run (replicate n 0) (?w, [?t])
         = Some (?w\<lparr>shared := settings (update_loop (call_hints ?t) (call_prefix ?t) (call_env ?t)
                                           ks (shared ?w) (log ?w)),
                    log := trace (update_loop (call_hints ?t) (call_prefix ?t) (call_env ?t)
                                           ks (shared ?w) (log ?w)),
                    held := removeAll l (held ?w)\<rparr>,
                 [?t\<lparr>call_state := Returned (raised (update_loop (call_hints ?t) (call_prefix ?t)
                                           (call_env ?t) ks (shared ?w) (log ?w)))\<rparr>])"
      by blast
    then have "run (replicate (Suc n) 0) (w, [t])
           = Some (w\<lparr>shared := settings (update_loop (call_hints t) (call_prefix t) (call_env t)
                                           (k # ks) (shared w) (log w)),
                     log := trace (update_loop (call_hints t) (call_prefix t) (call_env t)
                                           (k # ks) (shared w) (log w)),
                     held := removeAll l (held w)\<rparr>,
                   [t\<lparr>call_state := Returned (raised (update_loop (call_hints t) (call_prefix t)
                                           (call_env t) (k # ks) (shared w) (log w)))\<rparr>])"
      using first [of "replicate n 0"] Inr r by simp
    then show ?thesis by blast
  qed
qed

lemma run_alone:
  "\<exists>n. run (replicate n 0) (start c [(prefix, env)])
     = Some (\<lparr>shared = settings (update_from_env c prefix env),
               log = trace (update_from_env c prefix env),
               next_lock = 1, held = []\<rparr>,
             [\<lparr>call_prefix = prefix, call_env = env, call_hints = type_hints c,
               call_state = Returned (raised (update_from_env c prefix env))\<rparr>])"
proof -
  let ?w = "\<lparr>shared = c, log = [], next_lock = 1, held = [0]\<rparr>"
  let ?t = "\<lparr>call_prefix = prefix, call_env = env, call_hints = type_hints c,
             call_state = Looping 0 (map fst env)\<rparr>"
  have enter: "run (0 # sched) (start c [(prefix, env)]) = run sched (?w, [?t])" for sched
    by (simp add: start_def new_call_def step_call_def)
  have "call_state ?t = Looping 0 (map fst env)"
    by simp
  from run_loop_alone [OF this, of ?w] obtain n where
    "run (replicate n 0) (?w, [?t])
       = Some (\<lparr>shared = settings (update_from_env c prefix env),
                 log = trace (update_from_env c prefix env),
                 next_lock = 1, held = []\<rparr>,
               [\<lparr>call_prefix = prefix, call_env = env, call_hints = type_hints c,
                 call_state = Returned (raised (update_from_env c prefix env))\<rparr>])"
    by (auto simp: update_from_env_def)
  then have "run (replicate (Suc n) 0) (start c [(prefix, env)])
       = Some (\<lparr>shared = settings (update_from_env c prefix env),
                 log = trace (update_from_env c prefix env),
                 next_lock = 1, held = []\<rparr>,
               [\<lparr>call_prefix = prefix, call_env = env, call_hints = type_hints c,
                 call_state = Returned (raised (update_from_env c prefix env))\<rparr>])"
    using enter [of "replicate n 0"] by simp
  then show ?thesis by blast
qed

text \<open>
  C2. The claim: all calls acquire one lock shared by the whole process, so that the
  assignments of two calls never interleave. Line 63 makes a new lock in every call.
  Two calls on \<^verbatim>\<open>Settings\<close>, one with the prefix \<^verbatim>\<open>A_\<close> and one with \<^verbatim>\<open>B_\<close>: after each has
  taken its first step both are inside the block, each holding a lock of its own. In the
  schedule below the assignments alternate, and the class ends with \<^verbatim>\<open>x\<close> from the second
  call and \<^verbatim>\<open>y\<close> from the first, which neither order of two whole calls gives.
\<close>

theorem locks_are_not_shared:
  "map_option (\<lambda>(w, ts). (held w, map call_state ts))
     (run [0, 1]
        (start Settings [(''A_'', two_prefix_environ), (''B_'', two_prefix_environ)]))
     = Some ([1, 0], [Looping 0 [''A_X'', ''B_X'', ''B_Y'', ''A_Y''],
                      Looping 1 [''A_X'', ''B_X'', ''B_Y'', ''A_Y'']])
   \<and> map_option (\<lambda>(w, ts). (getattr (shared w) ''x'', getattr (shared w) ''y'', log w,
                              map call_state ts))
       (run [0, 1, 0, 1, 0, 1, 1, 0, 1, 0, 0, 1]
          (start Settings [(''A_'', two_prefix_environ), (''B_'', two_prefix_environ)]))
       = Some (Some (PStr ''2''), Some (PStr ''3''),
               [Found ''A_X'' ''x'' (Plain (PStr ''1'')), Found ''B_X'' ''x'' (Plain (PStr ''2'')),
                Found ''B_Y'' ''y'' (Plain (PStr ''4'')), Found ''A_Y'' ''y'' (Plain (PStr ''3''))],
               [Returned None, Returned None])
   \<and> getattr (settings (update_from_env
         (settings (update_from_env Settings ''A_'' two_prefix_environ))
         ''B_'' two_prefix_environ)) ''y'' = Some (PStr ''4'')
   \<and> getattr (settings (update_from_env
         (settings (update_from_env Settings ''B_'' two_prefix_environ))
         ''A_'' two_prefix_environ)) ''x'' = Some (PStr ''1'')"
  by code_simp

end
